theory Spec2Isabelle
  imports Complex_Main
begin

section \<open>The Black-Scholes calculator of \<^verbatim>\<open>src/backend/main.py\<close>\<close>

text \<open>
  Python floats are modelled as exact reals: the arithmetic of the source is read as
  real arithmetic, without rounding, overflow or underflow. The exceptions the
  operations raise on a real argument are values of the model: \<^verbatim>\<open>math.log\<close> of a
  non-positive number and \<^verbatim>\<open>math.sqrt\<close> of a negative number raise
  \<^verbatim>\<open>ValueError\<close>, and \<^verbatim>\<open>/\<close> by zero raises \<^verbatim>\<open>ZeroDivisionError\<close>.
  What only a float can do (\<^verbatim>\<open>math.exp\<close> or \<^verbatim>\<open>**\<close> raising
  \<^verbatim>\<open>OverflowError\<close>, a quotient underflowing to zero) is outside this model.
\<close>

subsection \<open>Exceptions as values\<close>

datatype py_error = ValueError | ZeroDivisionError

definition err_bind :: "'e + 'a \<Rightarrow> ('a \<Rightarrow> 'e + 'b) \<Rightarrow> 'e + 'b" where
  "err_bind m f = (case m of Inl e \<Rightarrow> Inl e | Inr x \<Rightarrow> f x)"

definition math_log :: "real \<Rightarrow> py_error + real" where
  "math_log x = (if x \<le> 0 then Inl ValueError else Inr (ln x))"

definition math_sqrt :: "real \<Rightarrow> py_error + real" where
  "math_sqrt x = (if x < 0 then Inl ValueError else Inr (sqrt x))"

definition truediv :: "real \<Rightarrow> real \<Rightarrow> py_error + real" where
  "truediv x y = (if y = 0 then Inl ZeroDivisionError else Inr (x / y))"

subsection \<open>The standard normal distribution (\<^verbatim>\<open>statistics.NormalDist()\<close>)\<close>

text \<open>
  The library's \<^verbatim>\<open>math.erf\<close> is the error function, given here by its Maclaurin
  series \<open>erf x = 2/\<surd>\<pi> * (\<Sum>k. (-1)^k * x^(2k+1) / (k! * (2k+1)))\<close>, written as a power
  series in \<open>x\<close> whose even coefficients vanish.
\<close>

definition erf_coeff :: "nat \<Rightarrow> real" where
  "erf_coeff n = (if odd n then (- 1) ^ (n div 2) / (fact (n div 2) * real n) else 0)"

definition erf :: "real \<Rightarrow> real" where
  "erf x = 2 / sqrt pi * (\<Sum>n. erf_coeff n * x ^ n)"

text \<open>
  \<^verbatim>\<open>NormalDist.cdf\<close> and \<^verbatim>\<open>NormalDist.pdf\<close> at \<open>mu = 0\<close>, \<open>sigma = 1\<close>:
  \<^verbatim>\<open>0.5 * (1.0 + erf((x - mu) / (sigma * sqrt(2.0))))\<close> and
  \<^verbatim>\<open>exp(diff * diff / (-2.0 * variance)) / sqrt(tau * variance)\<close> with
  \<^verbatim>\<open>diff = x - mu\<close>, \<^verbatim>\<open>variance = sigma * sigma\<close> and \<open>tau = 2\<pi>\<close>. With
  \<open>sigma = 1\<close> neither raises.
\<close>

definition norm_cdf :: "real \<Rightarrow> real" where
  "norm_cdf x = 0.5 * (1 + erf (x / sqrt 2))"

definition norm_pdf :: "real \<Rightarrow> real" where
  "norm_pdf x = exp (x * x / (- 2)) / sqrt (2 * pi)"

subsection \<open>\<^verbatim>\<open>_black_scholes\<close>\<close>

text \<open>The dictionary the function returns has exactly these six keys.\<close>

record bs_result =
  price :: real
  delta :: real
  gamma :: real
  vega :: real
  theta :: real
  rho :: real

definition zero_result :: bs_result where
  "zero_result = \<lparr>price = 0, delta = 0, gamma = 0, vega = 0, theta = 0, rho = 0\<rparr>"

text \<open>
  One definition for each assignment of the source, in the source's evaluation order;
  every \<^verbatim>\<open>sqrt(T)\<close>, \<^verbatim>\<open>log\<close> and division by a computed value can raise.
  Divisions by the literals \<^verbatim>\<open>100.0\<close> and \<^verbatim>\<open>365.0\<close> cannot.
\<close>

definition bs_d1 :: "real \<Rightarrow> real \<Rightarrow> real \<Rightarrow> real \<Rightarrow> real \<Rightarrow> py_error + real" where
  "bs_d1 S K T r sigma =
     err_bind (truediv S K) (\<lambda>q.
     err_bind (math_log q) (\<lambda>l.
     err_bind (math_sqrt T) (\<lambda>sT.
       truediv (l + (r + 0.5 * sigma\<^sup>2) * T) (sigma * sT))))"

definition bs_d2 :: "real \<Rightarrow> real \<Rightarrow> real \<Rightarrow> py_error + real" where
  "bs_d2 T sigma d1 = err_bind (math_sqrt T) (\<lambda>sT. Inr (d1 - sigma * sT))"

text \<open>The two branches of \<^verbatim>\<open>if is_call\<close>: each yields (price, delta, rho, theta).\<close>

definition bs_theta_call :: "real \<Rightarrow> real \<Rightarrow> real \<Rightarrow> real \<Rightarrow> real \<Rightarrow> real \<Rightarrow> real \<Rightarrow> py_error + real" where
  "bs_theta_call S K T r sigma d1 d2 =
     err_bind (math_sqrt T) (\<lambda>sT.
     err_bind (truediv (- (S * norm_pdf d1 * sigma)) (2 * sT)) (\<lambda>a.
       Inr ((a - r * K * exp (- r * T) * norm_cdf d2) / 365)))"

definition bs_theta_put :: "real \<Rightarrow> real \<Rightarrow> real \<Rightarrow> real \<Rightarrow> real \<Rightarrow> real \<Rightarrow> real \<Rightarrow> py_error + real" where
  "bs_theta_put S K T r sigma d1 d2 =
     err_bind (math_sqrt T) (\<lambda>sT.
     err_bind (truediv (- (S * norm_pdf d1 * sigma)) (2 * sT)) (\<lambda>a.
       Inr ((a + r * K * exp (- r * T) * norm_cdf (- d2)) / 365)))"

definition bs_call ::
  "real \<Rightarrow> real \<Rightarrow> real \<Rightarrow> real \<Rightarrow> real \<Rightarrow> real \<Rightarrow> real \<Rightarrow> py_error + (real \<times> real \<times> real \<times> real)" where
  "bs_call S K T r sigma d1 d2 =
     (let price = S * norm_cdf d1 - K * exp (- r * T) * norm_cdf d2;
          delta = norm_cdf d1;
          rho = K * T * exp (- r * T) * norm_cdf d2 / 100
      in err_bind (bs_theta_call S K T r sigma d1 d2) (\<lambda>theta.
           Inr (price, delta, rho, theta)))"

definition bs_put ::
  "real \<Rightarrow> real \<Rightarrow> real \<Rightarrow> real \<Rightarrow> real \<Rightarrow> real \<Rightarrow> real \<Rightarrow> py_error + (real \<times> real \<times> real \<times> real)" where
  "bs_put S K T r sigma d1 d2 =
     (let price = K * exp (- r * T) * norm_cdf (- d2) - S * norm_cdf (- d1);
          delta = - norm_cdf (- d1);
          rho = - K * T * exp (- r * T) * norm_cdf (- d2) / 100
      in err_bind (bs_theta_put S K T r sigma d1 d2) (\<lambda>theta.
           Inr (price, delta, rho, theta)))"

definition bs_gamma :: "real \<Rightarrow> real \<Rightarrow> real \<Rightarrow> real \<Rightarrow> py_error + real" where
  "bs_gamma S T sigma d1 =
     err_bind (math_sqrt T) (\<lambda>sT. truediv (norm_pdf d1) (S * sigma * sT))"

definition bs_vega :: "real \<Rightarrow> real \<Rightarrow> real \<Rightarrow> py_error + real" where
  "bs_vega S T d1 = err_bind (math_sqrt T) (\<lambda>sT. Inr (S * norm_pdf d1 * sT / 100))"

text \<open>
  \<^verbatim>\<open>_black_scholes(S, K, T, r, sigma, is_call)\<close> (an Isabelle name cannot begin with
  an underscore, so the function is \<open>u_black_scholes\<close> here).
\<close>

definition u_black_scholes ::
  "real \<Rightarrow> real \<Rightarrow> real \<Rightarrow> real \<Rightarrow> real \<Rightarrow> bool \<Rightarrow> py_error + bs_result" where
  "u_black_scholes S K T r sigma is_call =
     (if T \<le> 0 \<or> sigma \<le> 0 \<or> S \<le> 0 \<or> K \<le> 0 then Inr zero_result
      else
        err_bind (bs_d1 S K T r sigma) (\<lambda>d1.
        err_bind (bs_d2 T sigma d1) (\<lambda>d2.
        err_bind (if is_call then bs_call S K T r sigma d1 d2
                  else bs_put S K T r sigma d1 d2) (\<lambda>(p, dl, rh, th).
        err_bind (bs_gamma S T sigma d1) (\<lambda>g.
        err_bind (bs_vega S T d1) (\<lambda>v.
          Inr \<lparr>price = p, delta = dl, gamma = g, vega = v, theta = th, rho = rh\<rparr>))))))"

subsection \<open>The endpoint \<^verbatim>\<open>black_scholes\<close>\<close>

text \<open>
  \<^verbatim>\<open>str.lower()\<close> on the characters of a \<open>string\<close>: the letters \<open>A\<close> to \<open>Z\<close>
  (codes 65 to 90) move down by 32, every other character stays. A character outside
  ASCII is never lowered to one of the letters of \<^verbatim>\<open>'call'\<close>, so the comparison of
  the source is decided by this part of \<^verbatim>\<open>lower\<close> alone.
\<close>

definition lower_char :: "char \<Rightarrow> char" where
  "lower_char c =
     (let n = (of_char c :: nat) in if 65 \<le> n \<and> n \<le> 90 then char_of (n + 32) else c)"

definition lower :: "string \<Rightarrow> string" where
  "lower s = map lower_char s"

record option_request =
  req_S :: real
  req_K :: real
  req_T :: real
  req_r :: real
  req_sigma :: real
  req_type :: string

definition black_scholes :: "option_request \<Rightarrow> py_error + bs_result" where
  "black_scholes req =
     (let is_call = (lower (req_type req) = ''call'')
      in u_black_scholes (req_S req) (req_K req) (req_T req) (req_r req) (req_sigma req) is_call)"

subsection \<open>The closed form, in the words of the specification\<close>

text \<open>
  \<open>d1\<close>, \<open>d2\<close> and the six outputs of a call and of a put as the specification
  writes them, with \<open>N = norm_cdf\<close> and \<open>\<phi> = norm_pdf\<close>. The source is compared with
  these definitions below.
\<close>

definition spec_d1 :: "real \<Rightarrow> real \<Rightarrow> real \<Rightarrow> real \<Rightarrow> real \<Rightarrow> real" where
  "spec_d1 S K T r sigma = (ln (S / K) + (r + 0.5 * sigma\<^sup>2) * T) / (sigma * sqrt T)"

definition spec_d2 :: "real \<Rightarrow> real \<Rightarrow> real \<Rightarrow> real \<Rightarrow> real \<Rightarrow> real" where
  "spec_d2 S K T r sigma = spec_d1 S K T r sigma - sigma * sqrt T"

definition spec_call :: "real \<Rightarrow> real \<Rightarrow> real \<Rightarrow> real \<Rightarrow> real \<Rightarrow> bs_result" where
  "spec_call S K T r sigma =
     (let d1 = spec_d1 S K T r sigma; d2 = spec_d2 S K T r sigma in
      \<lparr>price = S * norm_cdf d1 - K * exp (- (r * T)) * norm_cdf d2,
       delta = norm_cdf d1,
       gamma = norm_pdf d1 / (S * sigma * sqrt T),
       vega = S * norm_pdf d1 * sqrt T / 100,
       theta = (- (S * norm_pdf d1 * sigma) / (2 * sqrt T)
                - r * K * exp (- (r * T)) * norm_cdf d2) / 365,
       rho = K * T * exp (- (r * T)) * norm_cdf d2 / 100\<rparr>)"

definition spec_put :: "real \<Rightarrow> real \<Rightarrow> real \<Rightarrow> real \<Rightarrow> real \<Rightarrow> bs_result" where
  "spec_put S K T r sigma =
     (let d1 = spec_d1 S K T r sigma; d2 = spec_d2 S K T r sigma in
      \<lparr>price = K * exp (- (r * T)) * norm_cdf (- d2) - S * norm_cdf (- d1),
       delta = - norm_cdf (- d1),
       gamma = norm_pdf d1 / (S * sigma * sqrt T),
       vega = S * norm_pdf d1 * sqrt T / 100,
       theta = (- (S * norm_pdf d1 * sigma) / (2 * sqrt T)
                + r * K * exp (- (r * T)) * norm_cdf (- d2)) / 365,
       rho = - K * T * exp (- (r * T)) * norm_cdf (- d2) / 100\<rparr>)"

subsection \<open>Auxiliary functions of the analysis\<close>

text \<open>
  Three functions that occur only in proofs: \<open>gauss_int x\<close> is the series of \<open>erf\<close>
  without its factor (the integral of \<open>exp (- t\<^sup>2)\<close> from \<open>0\<close> to \<open>x\<close>),
  \<open>cos_int k t\<close> is the integral of \<open>cos ^ k\<close> from \<open>0\<close> to \<open>t\<close> by its reduction
  formula, and \<open>wal k\<close> is its value at \<open>\<pi>/2\<close>.
\<close>

fun cos_int :: "nat \<Rightarrow> real \<Rightarrow> real" where
  "cos_int 0 t = t"
| "cos_int (Suc 0) t = sin t"
| "cos_int (Suc (Suc k)) t =
     cos t ^ Suc k * sin t / real (k + 2) + real (k + 1) / real (k + 2) * cos_int k t"

definition gauss_int :: "real \<Rightarrow> real" where
  "gauss_int x = (\<Sum>n. erf_coeff n * x ^ n)"

definition wal :: "nat \<Rightarrow> real" where
  "wal k = cos_int k (pi / 2)"

text \<open>The \<open>k\<close>-th term, without its sign, of the series of \<open>erf (\<surd>u) / \<surd>u\<close>.\<close>

definition erf_term :: "real \<Rightarrow> nat \<Rightarrow> real" where
  "erf_term u k = u ^ k / (fact k * real (2 * k + 1))"

text \<open>The price of a call as a function of the volatility, for the monotonicity proof.\<close>

definition call_price :: "real \<Rightarrow> real \<Rightarrow> real \<Rightarrow> real \<Rightarrow> real \<Rightarrow> real" where
  "call_price S K T r sigma = price (spec_call S K T r sigma)"

section \<open>Degenerate inputs\<close>

text \<open>
  C2: if at least one of \<open>T \<le> 0\<close>, \<open>sigma \<le> 0\<close>, \<open>S \<le> 0\<close>, \<open>K \<le> 0\<close> holds, the function
  returns the result whose six fields are all \<open>0\<close>, whatever \<open>r\<close> and the call/put flag are.
\<close>

theorem degenerate_all_zero:
  assumes "T \<le> 0 \<or> sigma \<le> 0 \<or> S \<le> 0 \<or> K \<le> 0"
  shows "u_black_scholes S K T r sigma is_call =
           Inr \<lparr>price = 0, delta = 0, gamma = 0, vega = 0, theta = 0, rho = 0\<rparr>"
  using assms by (simp add: u_black_scholes_def zero_result_def)

theorem degenerate_all_zero_witness:
  "u_black_scholes 100 100 0 (5 / 100) (2 / 10) True =
     Inr \<lparr>price = 0, delta = 0, gamma = 0, vega = 0, theta = 0, rho = 0\<rparr>"
  using degenerate_all_zero [of 0 "2 / 10" 100 100 "5 / 100" True] by simp

section \<open>Non-degenerate inputs: the value of each assignment\<close>

lemma bs_d1_value:
  assumes "0 < S" "0 < K" "0 < T" "0 < sigma"
  shows "bs_d1 S K T r sigma = Inr (spec_d1 S K T r sigma)"
  using assms
  by (simp add: bs_d1_def err_bind_def truediv_def math_log_def math_sqrt_def not_le spec_d1_def)

lemma bs_d2_value:
  assumes "0 < T"
  shows "bs_d2 T sigma (spec_d1 S K T r sigma) = Inr (spec_d2 S K T r sigma)"
  using assms by (simp add: bs_d2_def err_bind_def math_sqrt_def spec_d2_def)

lemma bs_call_value:
  assumes "0 < T"
  shows "bs_call S K T r sigma d1 d2 =
    Inr (S * norm_cdf d1 - K * exp (- (r * T)) * norm_cdf d2, norm_cdf d1,
         K * T * exp (- (r * T)) * norm_cdf d2 / 100,
         (- (S * norm_pdf d1 * sigma) / (2 * sqrt T) - r * K * exp (- (r * T)) * norm_cdf d2) / 365)"
  using assms
  by (simp add: bs_call_def bs_theta_call_def err_bind_def math_sqrt_def truediv_def Let_def)

lemma bs_put_value:
  assumes "0 < T"
  shows "bs_put S K T r sigma d1 d2 =
    Inr (K * exp (- (r * T)) * norm_cdf (- d2) - S * norm_cdf (- d1), - norm_cdf (- d1),
         - K * T * exp (- (r * T)) * norm_cdf (- d2) / 100,
         (- (S * norm_pdf d1 * sigma) / (2 * sqrt T) + r * K * exp (- (r * T)) * norm_cdf (- d2)) / 365)"
  using assms
  by (simp add: bs_put_def bs_theta_put_def err_bind_def math_sqrt_def truediv_def Let_def)

lemma bs_gamma_value:
  assumes "0 < S" "0 < T" "0 < sigma"
  shows "bs_gamma S T sigma d1 = Inr (norm_pdf d1 / (S * sigma * sqrt T))"
  using assms by (simp add: bs_gamma_def err_bind_def math_sqrt_def truediv_def)

lemma bs_vega_value:
  assumes "0 < T"
  shows "bs_vega S T d1 = Inr (S * norm_pdf d1 * sqrt T / 100)"
  using assms by (simp add: bs_vega_def err_bind_def math_sqrt_def)

lemma bs_value:
  assumes "0 < S" "0 < K" "0 < T" "0 < sigma"
  shows "u_black_scholes S K T r sigma is_call =
           Inr (if is_call then spec_call S K T r sigma else spec_put S K T r sigma)"
  using assms
  by (simp add: u_black_scholes_def not_le bs_d1_value bs_d2_value bs_call_value bs_put_value
      bs_gamma_value bs_vega_value err_bind_def spec_call_def spec_put_def Let_def)

text \<open>
  Over the reals the guard leaves \<open>S / K\<close>, \<open>T\<close>, \<open>sigma * sqrt T\<close>, \<open>2 * sqrt T\<close> and
  \<open>S * sigma * sqrt T\<close> strictly positive, so no branch of the model raises. This is a
  statement about real arithmetic only: on doubles \<^verbatim>\<open>exp(-r * T)\<close> and
  \<^verbatim>\<open>sigma ** 2\<close> can overflow and \<^verbatim>\<open>S / K\<close> and \<^verbatim>\<open>sigma * sqrt(T)\<close> can
  underflow to zero, and the source then raises.
\<close>

lemma bs_total: "\<exists>res. u_black_scholes S K T r sigma is_call = Inr res"
proof (cases "T \<le> 0 \<or> sigma \<le> 0 \<or> S \<le> 0 \<or> K \<le> 0")
  case True
  then show ?thesis by (simp add: u_black_scholes_def)
next
  case False
  then show ?thesis by (simp add: bs_value not_le)
qed


section \<open>The error function: convergence, symmetry, derivative\<close>

lemma strict_mono_odd: "strict_mono (\<lambda>k::nat. 2 * k + 1)"
  by (simp add: strict_mono_def)

lemma strict_mono_even: "strict_mono (\<lambda>k::nat. 2 * k)"
  by (simp add: strict_mono_def)

lemma erf_term_off_range:
  assumes "n \<notin> range (\<lambda>k::nat. 2 * k + 1)"
  shows "erf_coeff n * x ^ n = 0"
proof -
  have "even n"
  proof (rule ccontr)
    assume "\<not> even n"
    then obtain k where "n = 2 * k + 1" by (auto elim: oddE)
    with assms show False by auto
  qed
  then show ?thesis by (simp add: erf_coeff_def)
qed

lemma erf_coeff_odd [simp]:
  "erf_coeff (Suc (2 * k)) = (- 1) ^ k / (fact k * (1 + 2 * real k))"
  by (simp add: erf_coeff_def)

lemma erf_coeff_even [simp]: "erf_coeff (2 * k) = 0"
  by (simp add: erf_coeff_def)

lemma erf_odd_terms_summable:
  "summable (\<lambda>k. erf_coeff (2 * k + 1) * x ^ (2 * k + 1))"
proof (rule summable_comparison_test' [where N = 0])
  show "summable (\<lambda>k. \<bar>x\<bar> * ((x\<^sup>2) ^ k /\<^sub>R fact k))"
    by (rule summable_mult) (rule summable_exp_generic)
next
  fix k :: nat
  have "norm (erf_coeff (2 * k + 1) * x ^ (2 * k + 1))
      = \<bar>x\<bar> * (x\<^sup>2) ^ k / (fact k * (1 + 2 * real k))"
    by (simp add: abs_mult power_abs power_mult)
  also have "\<dots> \<le> \<bar>x\<bar> * (x\<^sup>2) ^ k / fact k"
    by (intro divide_left_mono mult_nonneg_nonneg) (simp_all add: mult_le_cancel_left1)
  finally show "norm (erf_coeff (2 * k + 1) * x ^ (2 * k + 1)) \<le> \<bar>x\<bar> * ((x\<^sup>2) ^ k /\<^sub>R fact k)"
    by (simp add: divide_inverse mult_ac)
qed

lemma erf_series_summable: "summable (\<lambda>n. erf_coeff n * x ^ n)"
  using summable_mono_reindex [OF strict_mono_odd, of "\<lambda>n. erf_coeff n * x ^ n"]
    erf_term_off_range [of _ x] erf_odd_terms_summable [of x]
  by blast

lemma erf_series_minus: "(\<Sum>n. erf_coeff n * (- x) ^ n) = - (\<Sum>n. erf_coeff n * x ^ n)"
proof -
  have "erf_coeff n * (- x) ^ n = - (erf_coeff n * x ^ n)" for n
    by (cases "even n") (simp_all add: erf_coeff_def)
  then have "(\<Sum>n. erf_coeff n * (- x) ^ n) = (\<Sum>n. - (erf_coeff n * x ^ n))"
    by simp
  also have "\<dots> = - (\<Sum>n. erf_coeff n * x ^ n)"
    by (rule suminf_minus) (rule erf_series_summable)
  finally show ?thesis .
qed

lemma erf_minus: "erf (- x) = - erf x"
  by (simp add: erf_def erf_series_minus)

lemma norm_cdf_minus: "norm_cdf (- x) = 1 - norm_cdf x"
  by (simp add: norm_cdf_def erf_minus field_simps)

lemma norm_pdf_eq: "norm_pdf x = exp (- (x\<^sup>2) / 2) / sqrt (2 * pi)"
  by (simp add: norm_pdf_def power2_eq_square)

lemma norm_pdf_pos: "0 < norm_pdf x"
  by (simp add: norm_pdf_def)

lemma diffs_erf_off_range:
  assumes "n \<notin> range (\<lambda>k::nat. 2 * k)"
  shows "diffs erf_coeff n * x ^ n = 0"
proof -
  have "odd n"
  proof (rule ccontr)
    assume "\<not> odd n"
    then obtain k where "n = 2 * k" by (auto elim: evenE)
    with assms show False by auto
  qed
  then show ?thesis by (simp add: diffs_def erf_coeff_def)
qed

lemma diffs_erf_even: "diffs erf_coeff (2 * k) * x ^ (2 * k) = (- (x\<^sup>2)) ^ k /\<^sub>R fact k"
proof -
  have "(1 + 2 * real k) * ((- 1) ^ k / (fact k * (1 + 2 * real k))) = (- 1) ^ k / fact k"
    by (simp add: field_simps add_nonneg_eq_0_iff)
  then have "diffs erf_coeff (2 * k) = (- 1) ^ k / fact k"
    by (simp add: diffs_def)
  moreover have "(- (x\<^sup>2)) ^ k = (- 1) ^ k * x ^ (2 * k)"
    by (simp add: power_minus [of "x\<^sup>2"] power_mult)
  ultimately show ?thesis
    by (simp add: divide_inverse mult_ac)
qed

lemma diffs_erf_series: "(\<Sum>n. diffs erf_coeff n * x ^ n) = exp (- (x\<^sup>2))"
proof -
  have "(\<Sum>n. diffs erf_coeff n * x ^ n) = (\<Sum>k. diffs erf_coeff (2 * k) * x ^ (2 * k))"
    by (rule suminf_mono_reindex [OF strict_mono_even, symmetric]) (rule diffs_erf_off_range)
  also have "\<dots> = (\<Sum>k. (- (x\<^sup>2)) ^ k /\<^sub>R fact k)"
    by (simp only: diffs_erf_even)
  also have "\<dots> = exp (- (x\<^sup>2))"
    by (simp add: exp_def)
  finally show ?thesis .
qed

lemma DERIV_erf_series:
  "((\<lambda>x. \<Sum>n. erf_coeff n * x ^ n) has_real_derivative exp (- (x\<^sup>2))) (at x)"
  using termdiffs_strong_converges_everywhere [of erf_coeff x] erf_series_summable
  by (simp add: diffs_erf_series)

lemma DERIV_erf: "(erf has_real_derivative 2 / sqrt pi * exp (- (x\<^sup>2))) (at x)"
proof -
  have "((\<lambda>x. 2 / sqrt pi * (\<Sum>n. erf_coeff n * x ^ n)) has_real_derivative
          2 / sqrt pi * exp (- (x\<^sup>2))) (at x)"
    by (rule DERIV_cmult [OF DERIV_erf_series])
  then show ?thesis
    by (simp add: erf_def [abs_def])
qed

lemma sqrt2_sq: "sqrt 2 * sqrt 2 = (2::real)"
  by simp

lemma DERIV_norm_cdf: "(norm_cdf has_real_derivative norm_pdf x) (at x)"
proof -
  have "((\<lambda>x. erf (x / sqrt 2)) has_real_derivative
          2 / sqrt pi * exp (- ((x / sqrt 2)\<^sup>2)) * (1 / sqrt 2)) (at x)"
    by (rule DERIV_chain' [OF _ DERIV_erf]) (auto intro!: derivative_eq_intros simp: real_div_sqrt)
  then have "((\<lambda>x. 0.5 * (1 + erf (x / sqrt 2))) has_real_derivative
          0.5 * (0 + 2 / sqrt pi * exp (- ((x / sqrt 2)\<^sup>2)) * (1 / sqrt 2))) (at x)"
    by (intro DERIV_cmult DERIV_add DERIV_const)
  moreover have "0.5 * (0 + 2 / sqrt pi * exp (- ((x / sqrt 2)\<^sup>2)) * (1 / sqrt 2)) = norm_pdf x"
    by (simp add: norm_pdf_def power_divide real_sqrt_mult power2_eq_square)
  ultimately show ?thesis
    by (simp add: norm_cdf_def [abs_def])
qed

section \<open>The price as a function of the volatility\<close>

text \<open>
  Over the reals the price of the call has the derivative \<open>S * norm_pdf d1 * sqrt T\<close> in
  \<open>sigma\<close>, so the prices of the call and of the put do not decrease when \<open>sigma\<close>
  grows. The rounding of doubles is not in this model, and the prices the source returns
  need not be monotone to the last bit.
\<close>

lemma spec_d1_sq_diff:
  assumes "0 < S" "0 < K" "0 < T" "0 < sigma"
  shows "(spec_d1 S K T r sigma)\<^sup>2 - (spec_d2 S K T r sigma)\<^sup>2 = 2 * (ln (S / K) + r * T)"
proof -
  define v where "v = sigma * sqrt T"
  define a where "a = ln (S / K) + (r + 0.5 * sigma\<^sup>2) * T"
  have v: "v \<noteq> 0" "v\<^sup>2 = sigma\<^sup>2 * T"
    using assms by (simp_all add: v_def power_mult_distrib)
  have d1: "spec_d1 S K T r sigma = a / v"
    by (simp add: spec_d1_def a_def v_def)
  have "(a / v)\<^sup>2 - (a / v - v)\<^sup>2 = 2 * a - v\<^sup>2"
    using v(1) by (simp add: power2_eq_square field_simps)
  also have "\<dots> = 2 * (ln (S / K) + r * T)"
    by (simp add: v(2) a_def algebra_simps)
  finally show ?thesis
    by (simp add: spec_d2_def d1 v_def)
qed

lemma bs_pdf_identity:
  assumes "0 < S" "0 < K" "0 < T" "0 < sigma"
  shows "K * exp (- (r * T)) * norm_pdf (spec_d2 S K T r sigma) = S * norm_pdf (spec_d1 S K T r sigma)"
proof -
  let ?d1 = "spec_d1 S K T r sigma" and ?d2 = "spec_d2 S K T r sigma"
  have "?d2\<^sup>2 / (- 2) = ?d1\<^sup>2 / (- 2) + (ln (S / K) + r * T)"
    using spec_d1_sq_diff [OF assms, of r] by (simp add: field_simps)
  then have "exp (?d2\<^sup>2 / (- 2)) = exp (?d1\<^sup>2 / (- 2) + (ln (S / K) + r * T))"
    by (simp only:)
  also have "\<dots> = exp (?d1\<^sup>2 / (- 2)) * (exp (ln (S / K)) * exp (r * T))"
    by (simp only: exp_add)
  also have "exp (ln (S / K)) = S / K"
    using assms by simp
  finally have "exp (?d2\<^sup>2 / (- 2)) = exp (?d1\<^sup>2 / (- 2)) * (S / K * exp (r * T))" .
  then have "norm_pdf ?d2 = norm_pdf ?d1 * (S / K * exp (r * T))"
    by (simp add: norm_pdf_def power2_eq_square)
  then have "K * exp (- (r * T)) * norm_pdf ?d2
      = S * norm_pdf ?d1 * (exp (- (r * T)) * exp (r * T))"
    using assms by simp
  also have "exp (- (r * T)) * exp (r * T) = 1"
    by (simp add: exp_minus)
  finally show ?thesis by simp
qed

lemma DERIV_spec_d1:
  assumes "0 < T" "0 < sigma"
  shows "\<exists>D. ((\<lambda>s. spec_d1 S K T r s) has_real_derivative D) (at sigma) \<and>
             ((\<lambda>s. spec_d2 S K T r s) has_real_derivative D - sqrt T) (at sigma)"
proof -
  have nz: "sigma * sqrt T \<noteq> 0"
    using assms by simp
  define D where "D = ((sigma * T) * (sigma * sqrt T)
      - (ln (S / K) + (r + 0.5 * sigma\<^sup>2) * T) * sqrt T) / ((sigma * sqrt T) * (sigma * sqrt T))"
  have "((\<lambda>s. (ln (S / K) + (r + 0.5 * s\<^sup>2) * T) / (s * sqrt T)) has_real_derivative D) (at sigma)"
    unfolding D_def using nz by (auto intro!: derivative_eq_intros)
  then have D: "((\<lambda>s. spec_d1 S K T r s) has_real_derivative D) (at sigma)"
    by (simp add: spec_d1_def [abs_def])
  have "((\<lambda>s. spec_d1 S K T r s - s * sqrt T) has_real_derivative D - 1 * sqrt T) (at sigma)"
    by (intro DERIV_diff D DERIV_cmult_right DERIV_ident)
  then show ?thesis
    using D by (auto simp: spec_d2_def)
qed

lemma DERIV_call_price:
  assumes "0 < S" "0 < K" "0 < T" "0 < sigma"
  shows "((\<lambda>s. call_price S K T r s) has_real_derivative
           S * norm_pdf (spec_d1 S K T r sigma) * sqrt T) (at sigma)"
proof -
  let ?d1 = "spec_d1 S K T r" and ?d2 = "spec_d2 S K T r"
  obtain D where D1: "(?d1 has_real_derivative D) (at sigma)"
    and D2: "(?d2 has_real_derivative D - sqrt T) (at sigma)"
    using DERIV_spec_d1 [OF assms(3,4)] by blast
  have N1: "((\<lambda>s. norm_cdf (?d1 s)) has_real_derivative norm_pdf (?d1 sigma) * D) (at sigma)"
    by (rule DERIV_chain' [OF D1 DERIV_norm_cdf])
  have N2: "((\<lambda>s. norm_cdf (?d2 s)) has_real_derivative norm_pdf (?d2 sigma) * (D - sqrt T)) (at sigma)"
    by (rule DERIV_chain' [OF D2 DERIV_norm_cdf])
  have "((\<lambda>s. S * norm_cdf (?d1 s) - K * exp (- (r * T)) * norm_cdf (?d2 s)) has_real_derivative
          S * (norm_pdf (?d1 sigma) * D) - K * exp (- (r * T)) * (norm_pdf (?d2 sigma) * (D - sqrt T)))
          (at sigma)"
    by (intro DERIV_diff DERIV_cmult N1 N2)
  moreover have "S * (norm_pdf (?d1 sigma) * D) - K * exp (- (r * T)) * (norm_pdf (?d2 sigma) * (D - sqrt T))
      = S * norm_pdf (?d1 sigma) * sqrt T"
  proof -
    have "K * exp (- (r * T)) * (norm_pdf (?d2 sigma) * (D - sqrt T))
        = (K * exp (- (r * T)) * norm_pdf (?d2 sigma)) * (D - sqrt T)"
      by simp
    also have "\<dots> = S * norm_pdf (?d1 sigma) * (D - sqrt T)"
      by (simp only: bs_pdf_identity [OF assms])
    finally show ?thesis
      by (simp add: algebra_simps)
  qed
  ultimately show ?thesis
    by (simp add: call_price_def [abs_def] spec_call_def Let_def)
qed

lemma call_price_mono:
  assumes "0 < S" "0 < K" "0 < T" "0 < s1" "s1 \<le> s2"
  shows "call_price S K T r s1 \<le> call_price S K T r s2"
proof (rule DERIV_nonneg_imp_nondecreasing [OF assms(5)])
  fix s assume "s1 \<le> s" "s \<le> s2"
  then have s: "0 < s" using assms(4) by simp
  have "0 \<le> S * norm_pdf (spec_d1 S K T r s) * sqrt T"
    using assms(1,3) norm_pdf_pos [of "spec_d1 S K T r s"] by simp
  then show "\<exists>y. ((\<lambda>s. call_price S K T r s) has_real_derivative y) (at s) \<and> 0 \<le> y"
    using DERIV_call_price [OF assms(1-3) s] by blast
qed

lemma put_call_parity_spec:
  "price (spec_call S K T r sigma) - price (spec_put S K T r sigma) = S - K * exp (- (r * T))"
  by (simp add: spec_call_def spec_put_def Let_def norm_cdf_minus algebra_simps)

lemma put_price_mono:
  assumes "0 < S" "0 < K" "0 < T" "0 < s1" "s1 \<le> s2"
  shows "price (spec_put S K T r s1) \<le> price (spec_put S K T r s2)"
  using call_price_mono [OF assms, of r] put_call_parity_spec [of S K T r s1]
    put_call_parity_spec [of S K T r s2]
  by (simp add: call_price_def)

section \<open>The lowercased type string\<close>

lemma lower_CALL: "lower ''CALL'' = ''call''"
  by code_simp

lemma lower_call: "lower ''call'' = ''call''"
  by code_simp

lemma lower_put: "lower ''put'' = ''put''"
  by code_simp

lemma of_char_lower_char:
  "(of_char (lower_char c) :: nat) =
     (if 65 \<le> (of_char c :: nat) \<and> (of_char c :: nat) \<le> 90 then of_char c + 32 else of_char c)"
  by (simp add: lower_char_def Let_def)

lemma lower_char_eq_iff:
  assumes "(of_char d :: nat) \<notin> {65..90}" "(of_char d :: nat) - 32 \<in> {65..90}"
  shows "lower_char c = d \<longleftrightarrow> c = d \<or> (of_char c :: nat) = of_char d - 32"
proof -
  have "lower_char c = d \<longleftrightarrow> (of_char (lower_char c) :: nat) = of_char d"
    by (simp only: of_char_eq_iff)
  also have "\<dots> \<longleftrightarrow> (of_char c :: nat) = of_char d \<or> (of_char c :: nat) = of_char d - 32"
    using assms by (auto simp: of_char_lower_char)
  finally show ?thesis by simp
qed

lemma lower_char_c: "lower_char x = CHR ''c'' \<longleftrightarrow> x = CHR ''c'' \<or> x = CHR ''C''"
proof -
  have "(of_char x :: nat) = 67 \<longleftrightarrow> x = CHR ''C''"
    using of_char_eq_iff [of x "CHR ''C''", where ?'a = nat] by simp
  then show ?thesis
    using lower_char_eq_iff [of "CHR ''c''" x] by simp
qed

lemma lower_char_a: "lower_char x = CHR ''a'' \<longleftrightarrow> x = CHR ''a'' \<or> x = CHR ''A''"
proof -
  have "(of_char x :: nat) = 65 \<longleftrightarrow> x = CHR ''A''"
    using of_char_eq_iff [of x "CHR ''A''", where ?'a = nat] by simp
  then show ?thesis
    using lower_char_eq_iff [of "CHR ''a''" x] by simp
qed

lemma lower_char_l: "lower_char x = CHR ''l'' \<longleftrightarrow> x = CHR ''l'' \<or> x = CHR ''L''"
proof -
  have "(of_char x :: nat) = 76 \<longleftrightarrow> x = CHR ''L''"
    using of_char_eq_iff [of x "CHR ''L''", where ?'a = nat] by simp
  then show ?thesis
    using lower_char_eq_iff [of "CHR ''l''" x] by simp
qed

lemma lower_eq_call_iff:
  "lower s = ''call'' \<longleftrightarrow>
     (\<exists>a b c d. s = [a, b, c, d] \<and> a \<in> {CHR ''c'', CHR ''C''} \<and> b \<in> {CHR ''a'', CHR ''A''}
        \<and> c \<in> {CHR ''l'', CHR ''L''} \<and> d \<in> {CHR ''l'', CHR ''L''})"
proof -
  have "lower s = ''call'' \<longleftrightarrow>
     (\<exists>a b c d. s = [a, b, c, d] \<and> lower_char a = CHR ''c'' \<and> lower_char b = CHR ''a''
        \<and> lower_char c = CHR ''l'' \<and> lower_char d = CHR ''l'')"
    by (auto simp: lower_def map_eq_Cons_conv)
  then show ?thesis
    by (simp add: lower_char_c lower_char_a lower_char_l)
qed

section \<open>The error function lies strictly between \<open>-1\<close> and \<open>1\<close>\<close>

text \<open>
  The bound \<open>gauss_int x < \<surd>\<pi> / 2\<close> is obtained without integration theory: for every
  \<open>m\<close> the function \<open>\<surd>(m+1) * cos_int (2m) (arctan (x / \<surd>(m+1)))\<close> has the derivative
  \<open>(1 + x\<^sup>2/(m+1)) ^ -(m+1)\<close>, which dominates \<open>exp (- x\<^sup>2)\<close>, and the values
  \<open>wal k\<close> satisfy \<open>(k+1) * wal k * wal (k+1) = \<pi>/2\<close> and decrease in \<open>k\<close>.
\<close>

lemma cos_int_0 [simp]: "cos_int k 0 = 0"
  by (induction k "0::real" rule: cos_int.induct) simp_all

lemma cos_int_step_algebra_aux:
  fixes c q d :: real
  assumes "d \<noteq> 0"
  shows "(- ((d - 1) * c * (1 - q)) + q * c) / d + (d - 1) / d * c = q * c"
  using assms by (simp add: field_simps)

lemma cos_int_step_algebra:
  fixes c q n :: real
  assumes "0 \<le> n"
  shows "(- ((n + 1) * c * (1 - q)) + q * c) / (n + 2) + (n + 1) / (n + 2) * c = q * c"
proof -
  have nz: "n + 2 \<noteq> 0" using assms by simp
  have "n + 2 - 1 = n + 1" by simp
  then show ?thesis
    using cos_int_step_algebra_aux [OF nz, of c q] by (simp only:)
qed

lemma DERIV_cos_int: "(cos_int k has_real_derivative cos t ^ k) (at t)"
proof (induction k t rule: cos_int.induct)
  case (1 t)
  show ?case by (simp add: cos_int.simps(1) [abs_def])
next
  case (2 t)
  have "(sin has_real_derivative cos t) (at t)" by simp
  then show ?case by (simp add: cos_int.simps(2) [abs_def])
next
  case (3 k t)
  have eq: "cos_int (Suc (Suc k)) =
      (\<lambda>t. cos t ^ Suc k * sin t / real (k + 2) + real (k + 1) / real (k + 2) * cos_int k t)"
    by (rule ext) simp
  let ?A = "real (Suc k) * cos t ^ k * (- sin t)"
  let ?D = "(?A * sin t + cos t * cos t ^ Suc k) / real (k + 2)
      + real (k + 1) / real (k + 2) * cos t ^ k"
  have a: "((\<lambda>t. cos t ^ Suc k) has_real_derivative ?A) (at t)"
    by (rule DERIV_power [OF DERIV_cos, THEN DERIV_cong]) simp
  have b: "((\<lambda>t. cos t ^ Suc k * sin t) has_real_derivative ?A * sin t + cos t * cos t ^ Suc k) (at t)"
    by (rule DERIV_mult [OF a DERIV_sin])
  have "((\<lambda>t. cos t ^ Suc k * sin t / real (k + 2) + real (k + 1) / real (k + 2) * cos_int k t)
      has_real_derivative ?D) (at t)"
    by (intro DERIV_add DERIV_cdivide [OF b] DERIV_cmult 3)
  moreover have "?D = cos t ^ Suc (Suc k)"
  proof -
    have h: "sin t * sin t = 1 - cos t * cos t"
      using sin_cos_squared_add [of t] by (simp add: power2_eq_square algebra_simps)
    have "?A * sin t = - (real (Suc k) * cos t ^ k * (sin t * sin t))"
      by (simp add: mult_ac)
    then have A: "?A * sin t = - (real (Suc k) * cos t ^ k * (1 - cos t * cos t))"
      by (simp only: h)
    have "?D = (- (real (Suc k) * cos t ^ k * (1 - cos t * cos t)) + cos t * cos t ^ Suc k) / real (k + 2)
      + real (k + 1) / real (k + 2) * cos t ^ k"
      by (simp only: A)
    also have "\<dots> = cos t * cos t * cos t ^ k"
      using cos_int_step_algebra [of "real k" "cos t ^ k" "cos t * cos t"]
      by (simp add: mult_ac add_ac)
    also have "\<dots> = cos t ^ Suc (Suc k)"
      by simp
    finally show ?thesis .
  qed
  ultimately show ?case
    by (simp only: eq)
qed

lemma gauss_int_0 [simp]: "gauss_int 0 = 0"
proof -
  have "erf_coeff n * 0 ^ n = 0" for n
    by (cases n) (simp_all add: erf_coeff_def)
  then show ?thesis by (simp only: gauss_int_def suminf_zero)
qed

lemma DERIV_gauss_int: "(gauss_int has_real_derivative exp (- (x\<^sup>2))) (at x)"
  using DERIV_erf_series [of x] by (simp add: gauss_int_def [abs_def])

lemma erf_gauss_int: "erf x = 2 / sqrt pi * gauss_int x"
  by (simp add: erf_def gauss_int_def)

lemma gauss_int_strict_mono:
  assumes "x < y"
  shows "gauss_int x < gauss_int y"
proof (rule DERIV_pos_imp_increasing [OF assms])
  fix t assume "x \<le> t" "t \<le> y"
  show "\<exists>D. (gauss_int has_real_derivative D) (at t) \<and> 0 < D"
    using DERIV_gauss_int [of t] exp_gt_zero by blast
qed

lemma gauss_int_nonneg: "0 \<le> x \<Longrightarrow> 0 \<le> gauss_int x"
  using gauss_int_strict_mono [of 0 x] by (cases "x = 0") simp_all

lemma exp_neg_sq_le:
  "exp (- (x\<^sup>2)) \<le> 1 / (1 + x\<^sup>2 / real (Suc m)) ^ Suc m"
proof -
  let ?u = "x\<^sup>2 / real (Suc m)"
  have u: "0 \<le> ?u" by simp
  have "(1 + ?u) ^ Suc m \<le> exp ?u ^ Suc m"
    by (rule power_mono) (use u in simp_all)
  also have "\<dots> = exp (real (Suc m) * ?u)"
    by (rule exp_of_nat_mult [symmetric])
  also have "real (Suc m) * ?u = x\<^sup>2"
    by simp
  finally have le: "(1 + ?u) ^ Suc m \<le> exp (x\<^sup>2)" .
  have pos: "0 < (1 + ?u) ^ Suc m"
    by (rule zero_less_power) (use u in linarith)
  have "1 / exp (x\<^sup>2) \<le> 1 / (1 + ?u) ^ Suc m"
    by (rule divide_left_mono [OF le]) (use pos in simp_all)
  then show ?thesis
    by (simp add: exp_minus inverse_eq_divide)
qed

lemma cos_arctan_power: "cos (arctan y) ^ (2 * m) = 1 / (1 + y\<^sup>2) ^ m"
proof -
  have "0 \<le> 1 + y\<^sup>2" by simp
  then have "(cos (arctan y))\<^sup>2 = 1 / (1 + y\<^sup>2)"
    by (simp add: cos_arctan power_divide)
  then show ?thesis
    by (simp add: power_mult power_divide)
qed

lemma DERIV_gauss_comparison:
  fixes m :: nat
  defines "s \<equiv> sqrt (real (Suc m))"
  shows "((\<lambda>t. s * cos_int (2 * m) (arctan (t / s)) - gauss_int t) has_real_derivative
           1 / (1 + t\<^sup>2 / real (Suc m)) ^ Suc m - exp (- (t\<^sup>2))) (at t)"
proof -
  have s: "0 < s" "s\<^sup>2 = real (Suc m)" "s \<noteq> 0"
    by (simp_all add: s_def)
  let ?y = "t / s"
  have y2: "?y\<^sup>2 = t\<^sup>2 / real (Suc m)"
    by (simp add: power_divide s(2))
  have q: "0 < 1 + ?y\<^sup>2"
    by (simp add: add_pos_nonneg)
  have "((\<lambda>t. t / s) has_real_derivative 1 / s) (at t)"
    using s(3) by (auto intro!: derivative_eq_intros)
  then have a: "((\<lambda>t. arctan (t / s)) has_real_derivative inverse (1 + ?y\<^sup>2) * (1 / s)) (at t)"
    by (rule DERIV_chain' [OF _ DERIV_arctan])
  have b: "((\<lambda>t. cos_int (2 * m) (arctan (t / s))) has_real_derivative
      cos (arctan ?y) ^ (2 * m) * (inverse (1 + ?y\<^sup>2) * (1 / s))) (at t)"
    by (rule DERIV_chain' [OF a DERIV_cos_int])
  have c: "((\<lambda>t. s * cos_int (2 * m) (arctan (t / s)) - gauss_int t) has_real_derivative
      s * (cos (arctan ?y) ^ (2 * m) * (inverse (1 + ?y\<^sup>2) * (1 / s))) - exp (- (t\<^sup>2))) (at t)"
    by (intro DERIV_diff DERIV_cmult b DERIV_gauss_int)
  have "s * (cos (arctan ?y) ^ (2 * m) * (inverse (1 + ?y\<^sup>2) * (1 / s)))
      = cos (arctan ?y) ^ (2 * m) * inverse (1 + ?y\<^sup>2)"
    using s(3) by simp
  also have "\<dots> = 1 / (1 + ?y\<^sup>2) ^ m * (1 / (1 + ?y\<^sup>2))"
    by (simp only: cos_arctan_power inverse_eq_divide)
  also have "\<dots> = 1 / (1 + ?y\<^sup>2) ^ Suc m"
    by simp
  finally show ?thesis
    using c by (simp only: y2)
qed

lemma gauss_int_le_cos_int:
  assumes "0 \<le> x"
  shows "gauss_int x \<le> sqrt (real (Suc m)) * cos_int (2 * m) (arctan (x / sqrt (real (Suc m))))"
proof -
  let ?s = "sqrt (real (Suc m))"
  let ?H = "\<lambda>t. ?s * cos_int (2 * m) (arctan (t / ?s)) - gauss_int t"
  have "?H 0 \<le> ?H x"
  proof (rule DERIV_nonneg_imp_nondecreasing [OF assms])
    fix t :: real
    have "0 \<le> 1 / (1 + t\<^sup>2 / real (Suc m)) ^ Suc m - exp (- (t\<^sup>2))"
      using exp_neg_sq_le [of t m] by simp
    then show "\<exists>D. (?H has_real_derivative D) (at t) \<and> 0 \<le> D"
      using DERIV_gauss_comparison [of m t] by blast
  qed
  then show ?thesis by simp
qed

lemma cos_int_le_half_pi:
  assumes "0 \<le> t" "t \<le> pi / 2"
  shows "cos_int k t \<le> cos_int k (pi / 2)"
proof (rule DERIV_nonneg_imp_nondecreasing [OF assms(2)])
  fix u assume "t \<le> u" "u \<le> pi / 2"
  then have "0 \<le> cos u"
    using assms(1) by (intro cos_ge_zero) simp_all
  then have "0 \<le> cos u ^ k" by simp
  then show "\<exists>D. (cos_int k has_real_derivative D) (at u) \<and> 0 \<le> D"
    using DERIV_cos_int [of k u] by blast
qed

lemma wal_0: "wal 0 = pi / 2"
  by (simp add: wal_def)

lemma wal_1: "wal (Suc 0) = 1"
  by (simp add: wal_def)

lemma wal_step: "wal (Suc (Suc k)) = real (k + 1) / real (k + 2) * wal k"
  by (simp add: wal_def)

lemma wal_prod: "real (Suc k) * wal k * wal (Suc k) = pi / 2"
proof (induction k)
  case 0
  show ?case by (simp add: wal_0 wal_1)
next
  case (Suc k)
  have "real (Suc (Suc k)) * wal (Suc k) * wal (Suc (Suc k))
      = real (Suc (Suc k)) * wal (Suc k) * (real (k + 1) / real (k + 2) * wal k)"
    by (simp only: wal_step)
  also have "\<dots> = real (Suc k) * wal k * wal (Suc k)"
    by simp
  finally have "real (Suc (Suc k)) * wal (Suc k) * wal (Suc (Suc k))
      = real (Suc k) * wal k * wal (Suc k)" .
  with Suc.IH show ?case by (simp only:)
qed

lemma wal_mono: "wal (Suc k) \<le> wal k"
proof -
  let ?G = "\<lambda>t. cos_int k t - cos_int (Suc k) t"
  have h: "(0::real) \<le> pi / 2" by simp
  have "?G 0 \<le> ?G (pi / 2)"
  proof (rule DERIV_nonneg_imp_nondecreasing [OF h])
    fix u :: real assume u: "0 \<le> u" "u \<le> pi / 2"
    then have c0: "0 \<le> cos u"
      by (intro cos_ge_zero) simp_all
    have "cos u ^ Suc k \<le> cos u ^ k"
      using c0 cos_le_one [of u] by (simp add: mult_left_le_one_le)
    then have "0 \<le> cos u ^ k - cos u ^ Suc k" by simp
    moreover have "(?G has_real_derivative cos u ^ k - cos u ^ Suc k) (at u)"
      by (intro DERIV_diff DERIV_cos_int)
    ultimately show "\<exists>D. (?G has_real_derivative D) (at u) \<and> 0 \<le> D"
      by blast
  qed
  then show ?thesis by (simp add: wal_def)
qed

lemma wal_pos: "0 < wal k"
proof (induction k rule: less_induct)
  case (less k)
  show ?case
  proof (cases k)
    case 0
    then show ?thesis by (simp add: wal_0)
  next
    case (Suc j)
    show ?thesis
    proof (cases j)
      case 0
      with Suc show ?thesis by (simp add: wal_1)
    next
      case (Suc i)
      have "0 < wal i"
        using less.IH [of i] \<open>k = Suc j\<close> Suc by simp
      then have "0 < real (i + 1) / real (i + 2) * wal i"
        by (intro mult_pos_pos divide_pos_pos) simp_all
      then show ?thesis
        using \<open>k = Suc j\<close> Suc by (simp only: wal_step)
    qed
  qed
qed

lemma wal_sq_le: "(wal (Suc k))\<^sup>2 \<le> pi / (2 * real (Suc k))"
proof -
  have "(wal (Suc k))\<^sup>2 = wal (Suc k) * wal (Suc k)"
    by (simp add: power2_eq_square)
  also have "\<dots> \<le> wal k * wal (Suc k)"
    by (rule mult_right_mono [OF wal_mono]) (use wal_pos [of "Suc k"] in simp)
  also have "\<dots> = pi / (2 * real (Suc k))"
    using wal_prod [of k] by (simp add: field_simps)
  finally show ?thesis .
qed

lemma gauss_int_le_wal:
  assumes "0 \<le> x"
  shows "gauss_int x \<le> sqrt (real (Suc m)) * wal (2 * m)"
proof -
  let ?s = "sqrt (real (Suc m))"
  have s: "0 < ?s" by simp
  have "0 \<le> x / ?s" using assms by simp
  then have "0 \<le> arctan (x / ?s)" "arctan (x / ?s) \<le> pi / 2"
    using arctan_ubound [of "x / ?s"] by simp_all
  then have "cos_int (2 * m) (arctan (x / ?s)) \<le> wal (2 * m)"
    unfolding wal_def by (rule cos_int_le_half_pi)
  then have "?s * cos_int (2 * m) (arctan (x / ?s)) \<le> ?s * wal (2 * m)"
    using s by (simp only: mult_le_cancel_left_pos)
  with gauss_int_le_cos_int [OF assms, of m] show ?thesis by linarith
qed

lemma gauss_int_sq_le:
  assumes "0 \<le> x"
  shows "(gauss_int x)\<^sup>2 \<le> (1 + 1 / real (Suc j)) * (pi / 4)"
proof -
  let ?m = "Suc j"
  let ?s = "sqrt (real (Suc ?m))"
  have w: "(wal (2 * ?m))\<^sup>2 \<le> pi / (4 * real ?m)"
    using wal_sq_le [of "2 * j + 1"] by (simp add: algebra_simps)
  have "(gauss_int x)\<^sup>2 \<le> (?s * wal (2 * ?m))\<^sup>2"
    by (rule power_mono [OF gauss_int_le_wal [OF assms] gauss_int_nonneg [OF assms]])
  also have "\<dots> = real (Suc ?m) * (wal (2 * ?m))\<^sup>2"
    by (simp only: power_mult_distrib real_sqrt_pow2 of_nat_0_le_iff)
  also have "\<dots> \<le> real (Suc ?m) * (pi / (4 * real ?m))"
    by (rule mult_left_mono [OF w]) simp
  also have "\<dots> = (1 + 1 / real ?m) * (pi / 4)"
    by (simp add: field_simps)
  finally show ?thesis .
qed

lemma gauss_int_sq_le_pi4:
  assumes "0 \<le> x"
  shows "(gauss_int x)\<^sup>2 \<le> pi / 4"
proof (rule ccontr)
  assume "\<not> ?thesis"
  then have e: "0 < (gauss_int x)\<^sup>2 - pi / 4" by simp
  define e where "e = (gauss_int x)\<^sup>2 - pi / 4"
  have epos: "0 < e" using e by (simp add: e_def)
  obtain n :: nat where n: "pi / 4 / e < real n"
    using reals_Archimedean2 by blast
  have "pi / 4 / e < real (Suc n)"
    using n by simp
  then have "pi / 4 < real (Suc n) * e"
    using epos by (simp add: pos_divide_less_eq)
  then have lt: "1 / real (Suc n) * (pi / 4) < e"
    by (simp add: field_simps)
  have "(gauss_int x)\<^sup>2 \<le> (1 + 1 / real (Suc n)) * (pi / 4)"
    by (rule gauss_int_sq_le [OF assms])
  then have "e \<le> 1 / real (Suc n) * (pi / 4)"
    by (simp add: e_def algebra_simps)
  with lt show False by simp
qed

lemma gauss_int_less: "gauss_int x < sqrt pi / 2"
proof (cases "0 \<le> x")
  case True
  then have x1: "0 \<le> x + 1" by simp
  have "gauss_int x < gauss_int (x + 1)"
    by (rule gauss_int_strict_mono) simp
  also have "gauss_int (x + 1) \<le> sqrt (pi / 4)"
    by (rule real_le_rsqrt [OF gauss_int_sq_le_pi4 [OF x1]])
  also have "sqrt (pi / 4) = sqrt pi / 2"
    by (simp add: real_sqrt_divide)
  finally show ?thesis .
next
  case False
  then have "gauss_int x < gauss_int 0"
    by (intro gauss_int_strict_mono) simp
  also have "gauss_int 0 < sqrt pi / 2" by simp
  finally show ?thesis .
qed

lemma erf_less_1: "erf x < 1"
proof -
  have "2 / sqrt pi * gauss_int x < 2 / sqrt pi * (sqrt pi / 2)"
    by (rule mult_strict_left_mono [OF gauss_int_less]) simp
  then show ?thesis by (simp add: erf_gauss_int)
qed

lemma erf_greater_minus_1: "- 1 < erf x"
  using erf_less_1 [of "- x"] by (simp add: erf_minus)

lemma norm_cdf_bounds: "0 < norm_cdf x" "norm_cdf x < 1"
  using erf_less_1 [of "x / sqrt 2"] erf_greater_minus_1 [of "x / sqrt 2"]
  by (simp_all add: norm_cdf_def)

section \<open>Numerical bounds for the concrete scenario\<close>

text \<open>
  The series of \<open>erf\<close>, of \<open>arctan\<close> and of \<open>exp (- x)\<close> alternate with decreasing
  terms, so consecutive partial sums enclose their limits; \<open>\<pi>\<close> is enclosed through
  Machin's formula.
\<close>

lemma erf_term_nonneg: "0 \<le> u \<Longrightarrow> 0 \<le> erf_term u k"
  by (simp add: erf_term_def)

lemma erf_term_decreasing:
  assumes "0 \<le> u" "u \<le> 1"
  shows "erf_term u (Suc k) \<le> erf_term u k"
proof -
  have "u ^ Suc k \<le> u ^ k"
    using assms by (simp add: mult_left_le_one_le)
  moreover have "fact k * real (2 * k + 1) \<le> fact (Suc k) * real (2 * Suc k + 1)"
    by (intro mult_mono) (simp_all add: fact_mono)
  moreover have "0 < fact k * real (2 * k + 1)"
    by (intro mult_pos_pos) simp_all
  moreover have "0 \<le> u ^ Suc k"
    using assms by simp
  ultimately show ?thesis
    unfolding erf_term_def by (intro frac_le) simp_all
qed

lemma erf_term_tendsto_0:
  assumes "0 \<le> u" "u < 1"
  shows "erf_term u \<longlonglongrightarrow> 0"
proof (rule tendsto_sandwich [where f = "\<lambda>_. 0" and h = "\<lambda>k. u ^ k"])
  show "eventually (\<lambda>k. 0 \<le> erf_term u k) sequentially"
    using assms by (simp add: erf_term_nonneg)
  have "erf_term u k \<le> u ^ k" for k
  proof -
    have "1 \<le> fact k * real (2 * k + 1)"
      using fact_ge_1 [of k, where ?'a = real] by (intro mult_ge1_I) simp_all
    then have "u ^ k / (fact k * real (2 * k + 1)) \<le> u ^ k / 1"
      using assms by (intro divide_left_mono) simp_all
    then show ?thesis by (simp add: erf_term_def)
  qed
  then show "eventually (\<lambda>k. erf_term u k \<le> u ^ k) sequentially"
    by simp
  show "(\<lambda>k. u ^ k) \<longlonglongrightarrow> 0"
    using assms by (rule LIMSEQ_realpow_zero)
qed simp

lemma erf_odd_term_alt:
  "erf_coeff (2 * k + 1) * y ^ (2 * k + 1) = y * ((- 1) ^ k * erf_term (y\<^sup>2) k)"
  by (simp add: erf_term_def power_mult)

lemma erf_term_summable: "summable (\<lambda>k. (- 1) ^ k * erf_term (y\<^sup>2) k)"
proof (cases "y = 0")
  case True
  have "(\<lambda>k. (- 1) ^ k * erf_term (0::real) k) = (\<lambda>k. if k = 0 then 1 else 0)"
    by (rule ext) (simp add: erf_term_def)
  then show ?thesis using True by simp
next
  case False
  have "summable (\<lambda>k. inverse y * (erf_coeff (2 * k + 1) * y ^ (2 * k + 1)))"
    by (rule summable_mult) (rule erf_odd_terms_summable)
  moreover have "inverse y * (erf_coeff (2 * k + 1) * y ^ (2 * k + 1))
      = (- 1) ^ k * erf_term (y\<^sup>2) k" for k
    using False by (simp only: erf_odd_term_alt) simp
  ultimately show ?thesis by simp
qed

lemma gauss_int_alt: "gauss_int y = y * (\<Sum>k. (- 1) ^ k * erf_term (y\<^sup>2) k)"
proof -
  have "gauss_int y = (\<Sum>k. erf_coeff (2 * k + 1) * y ^ (2 * k + 1))"
    unfolding gauss_int_def
    by (rule suminf_mono_reindex [OF strict_mono_odd, symmetric]) (rule erf_term_off_range)
  also have "\<dots> = (\<Sum>k. y * ((- 1) ^ k * erf_term (y\<^sup>2) k))"
    by (simp only: erf_odd_term_alt)
  also have "\<dots> = y * (\<Sum>k. (- 1) ^ k * erf_term (y\<^sup>2) k)"
    by (rule suminf_mult) (rule erf_term_summable)
  finally show ?thesis .
qed

lemma norm_cdf_alt:
  "norm_cdf x = 1 / 2 + x / sqrt (2 * pi) * (\<Sum>k. (- 1) ^ k * erf_term (x\<^sup>2 / 2) k)"
proof -
  define h where "h = (\<Sum>k. (- 1) ^ k * erf_term (x\<^sup>2 / 2) k)"
  have e: "(x / sqrt 2)\<^sup>2 = x\<^sup>2 / 2"
    by (simp add: power_divide)
  have "gauss_int (x / sqrt 2) = x / sqrt 2 * (\<Sum>k. (- 1) ^ k * erf_term ((x / sqrt 2)\<^sup>2) k)"
    by (rule gauss_int_alt)
  then have "gauss_int (x / sqrt 2) = x / sqrt 2 * h"
    by (simp only: e h_def)
  then have "norm_cdf x = 0.5 * (1 + 2 / sqrt pi * (x / sqrt 2 * h))"
    by (simp only: norm_cdf_def erf_gauss_int)
  also have "\<dots> = 1 / 2 + x / sqrt (2 * pi) * h"
    by (simp add: real_sqrt_mult field_simps)
  finally show ?thesis by (simp only: h_def)
qed

lemma erf_series_bounds:
  assumes "0 \<le> u" "u < 1"
  shows "(\<Sum>k<2 * n. (- 1) ^ k * erf_term u k) \<le> (\<Sum>k. (- 1) ^ k * erf_term u k)"
    and "(\<Sum>k. (- 1) ^ k * erf_term u k) \<le> (\<Sum>k<2 * n + 1. (- 1) ^ k * erf_term u k)"
proof -
  have d: "\<And>k. erf_term u (Suc k) \<le> erf_term u k"
    using assms by (intro erf_term_decreasing) simp_all
  have p: "\<And>k. 0 \<le> erf_term u k"
    using assms by (intro erf_term_nonneg)
  show "(\<Sum>k<2 * n. (- 1) ^ k * erf_term u k) \<le> (\<Sum>k. (- 1) ^ k * erf_term u k)"
    by (rule summable_Leibniz'(2) [where a = "erf_term u", OF erf_term_tendsto_0 [OF assms] p d])
  show "(\<Sum>k. (- 1) ^ k * erf_term u k) \<le> (\<Sum>k<2 * n + 1. (- 1) ^ k * erf_term u k)"
    by (rule summable_Leibniz'(4) [where a = "erf_term u", OF erf_term_tendsto_0 [OF assms] p d])
qed

lemma arctan_series_bounds:
  assumes "0 \<le> x" "x \<le> 1"
  shows "(\<Sum>k<2 * n. (- 1) ^ k * (1 / real (k * 2 + 1) * x ^ (k * 2 + 1))) \<le> arctan x"
    and "arctan x \<le> (\<Sum>k<2 * n + 1. (- 1) ^ k * (1 / real (k * 2 + 1) * x ^ (k * 2 + 1)))"
proof -
  let ?a = "\<lambda>k. 1 / real (k * 2 + 1) * x ^ (k * 2 + 1)"
  have ax: "\<bar>x\<bar> \<le> 1" using assms by simp
  have z: "?a \<longlonglongrightarrow> 0"
    by (rule zeroseq_arctan_series [OF ax])
  have p: "\<And>k. 0 \<le> ?a k"
    using assms by simp
  have d: "?a (Suc k) \<le> ?a k" for k
  proof -
    have "x ^ (Suc k * 2 + 1) \<le> x ^ (k * 2 + 1)"
      using assms by (intro power_decreasing) simp_all
    moreover have "0 \<le> x ^ (Suc k * 2 + 1)"
      using assms by simp
    ultimately have "x ^ (Suc k * 2 + 1) / real (Suc k * 2 + 1) \<le> x ^ (k * 2 + 1) / real (k * 2 + 1)"
      by (intro frac_le) simp_all
    then show ?thesis by simp
  qed
  have s: "arctan x = (\<Sum>k. (- 1) ^ k * ?a k)"
    by (rule arctan_series [OF ax])
  show "(\<Sum>k<2 * n. (- 1) ^ k * ?a k) \<le> arctan x"
    unfolding s by (rule summable_Leibniz'(2) [where a = ?a, OF z p d])
  show "arctan x \<le> (\<Sum>k<2 * n + 1. (- 1) ^ k * ?a k)"
    unfolding s by (rule summable_Leibniz'(4) [where a = ?a, OF z p d])
qed

lemma arctan_5_bounds:
  "1973955598498 / 10000000000000 \<le> arctan (1 / 5)"
  "arctan (1 / 5) \<le> 1973955598499 / 10000000000000"
proof -
  have "(1973955598498 / 10000000000000 :: real)
      \<le> (\<Sum>k<2 * 4. (- 1) ^ k * (1 / real (k * 2 + 1) * (1 / 5) ^ (k * 2 + 1)))"
    by (simp add: eval_nat_numeral)
  also have "\<dots> \<le> arctan (1 / 5)"
    by (rule arctan_series_bounds(1)) simp_all
  finally show "1973955598498 / 10000000000000 \<le> arctan (1 / 5)" .
  have "arctan (1 / 5) \<le> (\<Sum>k<2 * 4 + 1. (- 1) ^ k * (1 / real (k * 2 + 1) * (1 / 5) ^ (k * 2 + 1)))"
    by (rule arctan_series_bounds(2)) simp_all
  also have "\<dots> \<le> (1973955598499 / 10000000000000 :: real)"
    by (simp add: eval_nat_numeral)
  finally show "arctan (1 / 5) \<le> 1973955598499 / 10000000000000" .
qed

lemma arctan_239_bounds:
  "41840760018 / 10000000000000 \<le> arctan (1 / 239)"
  "arctan (1 / 239) \<le> 41840760021 / 10000000000000"
proof -
  have "(41840760018 / 10000000000000 :: real)
      \<le> (\<Sum>k<2 * 1. (- 1) ^ k * (1 / real (k * 2 + 1) * (1 / 239) ^ (k * 2 + 1)))"
    by (simp add: eval_nat_numeral)
  also have "\<dots> \<le> arctan (1 / 239)"
    by (rule arctan_series_bounds(1)) simp_all
  finally show "41840760018 / 10000000000000 \<le> arctan (1 / 239)" .
  have "arctan (1 / 239) \<le> (\<Sum>k<2 * 1 + 1. (- 1) ^ k * (1 / real (k * 2 + 1) * (1 / 239) ^ (k * 2 + 1)))"
    by (rule arctan_series_bounds(2)) simp_all
  also have "\<dots> \<le> (41840760021 / 10000000000000 :: real)"
    by (simp add: eval_nat_numeral)
  finally show "arctan (1 / 239) \<le> 41840760021 / 10000000000000" .
qed

lemma pi_bounds: "314159265358 / 100000000000 \<le> pi" "pi \<le> 314159265360 / 100000000000"
proof -
  have m: "pi = 16 * arctan (1 / 5) - 4 * arctan (1 / 239)"
    using machin by simp
  show "314159265358 / 100000000000 \<le> pi"
    using arctan_5_bounds(1) arctan_239_bounds(2) unfolding m by linarith
  show "pi \<le> 314159265360 / 100000000000"
    using arctan_5_bounds(2) arctan_239_bounds(1) unfolding m by linarith
qed

lemma inv_sqrt_2pi_bounds:
  "39894228040 / 100000000000 \<le> 1 / sqrt (2 * pi)"
  "1 / sqrt (2 * pi) \<le> 39894228041 / 100000000000"
proof -
  have pos: "0 < sqrt (2 * pi)" by simp
  have "2 * (314159265360 / 100000000000) \<le> (100000000000 / 39894228040 :: real)\<^sup>2"
    by (simp add: power2_eq_square)
  then have "2 * pi \<le> (100000000000 / 39894228040)\<^sup>2"
    using pi_bounds(2) by linarith
  then have "sqrt (2 * pi) \<le> 100000000000 / 39894228040"
    by (intro real_le_lsqrt) simp_all
  then show "39894228040 / 100000000000 \<le> 1 / sqrt (2 * pi)"
    using pos by (simp add: field_simps)
  have "(100000000000 / 39894228041 :: real)\<^sup>2 \<le> 2 * (314159265358 / 100000000000)"
    by (simp add: power2_eq_square)
  then have "(100000000000 / 39894228041)\<^sup>2 \<le> 2 * pi"
    using pi_bounds(1) by linarith
  then have "100000000000 / 39894228041 \<le> sqrt (2 * pi)"
    by (rule real_le_rsqrt)
  then show "1 / sqrt (2 * pi) \<le> 39894228041 / 100000000000"
    using pos by (simp add: field_simps)
qed

lemma erf_sum_35_bounds:
  "979953083060 / 1000000000000 \<le> (\<Sum>k. (- 1) ^ k * erf_term (49 / 800) k)"
  "(\<Sum>k. (- 1) ^ k * erf_term (49 / 800) k) \<le> 979953083066 / 1000000000000"
proof -
  have "(979953083060 / 1000000000000 :: real) \<le> (\<Sum>k<2 * 3. (- 1) ^ k * erf_term (49 / 800) k)"
    by (simp add: erf_term_def eval_nat_numeral)
  also have "\<dots> \<le> (\<Sum>k. (- 1) ^ k * erf_term (49 / 800) k)"
    by (rule erf_series_bounds(1)) simp_all
  finally show "979953083060 / 1000000000000 \<le> (\<Sum>k. (- 1) ^ k * erf_term (49 / 800) k)" .
  have "(\<Sum>k. (- 1) ^ k * erf_term (49 / 800) k) \<le> (\<Sum>k<2 * 3 + 1. (- 1) ^ k * erf_term (49 / 800) k)"
    by (rule erf_series_bounds(2)) simp_all
  also have "\<dots> \<le> (979953083066 / 1000000000000 :: real)"
    by (simp add: erf_term_def eval_nat_numeral)
  finally show "(\<Sum>k. (- 1) ^ k * erf_term (49 / 800) k) \<le> 979953083066 / 1000000000000" .
qed

lemma erf_sum_15_bounds:
  "996262622423 / 1000000000000 \<le> (\<Sum>k. (- 1) ^ k * erf_term (9 / 800) k)"
  "(\<Sum>k. (- 1) ^ k * erf_term (9 / 800) k) \<le> 996262622424 / 1000000000000"
proof -
  have "(996262622423 / 1000000000000 :: real) \<le> (\<Sum>k<2 * 3. (- 1) ^ k * erf_term (9 / 800) k)"
    by (simp add: erf_term_def eval_nat_numeral)
  also have "\<dots> \<le> (\<Sum>k. (- 1) ^ k * erf_term (9 / 800) k)"
    by (rule erf_series_bounds(1)) simp_all
  finally show "996262622423 / 1000000000000 \<le> (\<Sum>k. (- 1) ^ k * erf_term (9 / 800) k)" .
  have "(\<Sum>k. (- 1) ^ k * erf_term (9 / 800) k) \<le> (\<Sum>k<2 * 3 + 1. (- 1) ^ k * erf_term (9 / 800) k)"
    by (rule erf_series_bounds(2)) simp_all
  also have "\<dots> \<le> (996262622424 / 1000000000000 :: real)"
    by (simp add: erf_term_def eval_nat_numeral)
  finally show "(\<Sum>k. (- 1) ^ k * erf_term (9 / 800) k) \<le> 996262622424 / 1000000000000" .
qed

lemma exp_minus_series_bounds:
  fixes x :: real
  assumes "0 \<le> x" "x \<le> 1"
  shows "(\<Sum>k<2 * n. (- 1) ^ k * (x ^ k / fact k)) \<le> exp (- x)"
    and "exp (- x) \<le> (\<Sum>k<2 * n + 1. (- 1) ^ k * (x ^ k / fact k))"
proof -
  let ?a = "\<lambda>k. x ^ k / fact k"
  have "summable (\<lambda>k. inverse (fact k) * x ^ k)"
    by (rule summable_exp)
  then have "(\<lambda>k. inverse (fact k) * x ^ k) \<longlonglongrightarrow> 0"
    by (rule summable_LIMSEQ_zero)
  then have z: "?a \<longlonglongrightarrow> 0"
    by (simp add: divide_inverse mult.commute)
  have p: "\<And>k. 0 \<le> ?a k"
    using assms by simp
  have d: "?a (Suc k) \<le> ?a k" for k
  proof -
    have "x ^ Suc k \<le> x ^ k"
      using assms by (simp add: mult_left_le_one_le)
    moreover have "(fact k :: real) \<le> fact (Suc k)"
      by (rule fact_mono) simp
    moreover have "0 \<le> x ^ k" "0 < (fact k :: real)"
      using assms by simp_all
    ultimately show ?thesis
      by (intro frac_le)
  qed
  have "exp (- x) = (\<Sum>k. (- x) ^ k /\<^sub>R fact k)"
    by (simp add: exp_def)
  also have "(\<lambda>k. (- x) ^ k /\<^sub>R fact k) = (\<lambda>k. (- 1) ^ k * ?a k)"
    by (rule ext) (simp add: power_minus [of x] divide_inverse mult_ac)
  finally have s: "exp (- x) = (\<Sum>k. (- 1) ^ k * ?a k)" .
  show "(\<Sum>k<2 * n. (- 1) ^ k * ?a k) \<le> exp (- x)"
    unfolding s by (rule summable_Leibniz'(2) [where a = ?a, OF z p d])
  show "exp (- x) \<le> (\<Sum>k<2 * n + 1. (- 1) ^ k * ?a k)"
    unfolding s by (rule summable_Leibniz'(4) [where a = ?a, OF z p d])
qed

lemma exp_minus_20_bounds:
  "95122942447 / 100000000000 \<le> exp (- (1 / 20) :: real)"
  "exp (- (1 / 20) :: real) \<le> 95122942451 / 100000000000"
proof -
  have "(95122942447 / 100000000000 :: real) \<le> (\<Sum>k<2 * 3. (- 1) ^ k * ((1 / 20) ^ k / fact k))"
    by (simp add: eval_nat_numeral)
  also have "\<dots> \<le> exp (- (1 / 20))"
    by (rule exp_minus_series_bounds(1)) simp_all
  finally show "95122942447 / 100000000000 \<le> exp (- (1 / 20) :: real)" .
  have "exp (- (1 / 20) :: real) \<le> (\<Sum>k<2 * 3 + 1. (- 1) ^ k * ((1 / 20) ^ k / fact k))"
    by (rule exp_minus_series_bounds(2)) simp_all
  also have "\<dots> \<le> (95122942451 / 100000000000 :: real)"
    by (simp add: eval_nat_numeral)
  finally show "exp (- (1 / 20) :: real) \<le> 95122942451 / 100000000000" .
qed

lemma scaled_product_bounds:
  fixes c h x cl ch hl hh :: real
  assumes "cl \<le> c" "c \<le> ch" "hl \<le> h" "h \<le> hh" "0 \<le> cl" "0 \<le> hl" "0 \<le> x"
  shows "1 / 2 + x * (cl * hl) \<le> 1 / 2 + x * c * h" "1 / 2 + x * c * h \<le> 1 / 2 + x * (ch * hh)"
proof -
  have "cl * hl \<le> c * h"
    using assms by (intro mult_mono) simp_all
  then have "x * (cl * hl) \<le> x * (c * h)"
    using assms(7) by (rule mult_left_mono)
  then show "1 / 2 + x * (cl * hl) \<le> 1 / 2 + x * c * h"
    by (simp add: mult.assoc)
  have "c * h \<le> ch * hh"
    using assms by (intro mult_mono) simp_all
  then have "x * (c * h) \<le> x * (ch * hh)"
    using assms(7) by (rule mult_left_mono)
  then show "1 / 2 + x * c * h \<le> 1 / 2 + x * (ch * hh)"
    by (simp add: mult.assoc)
qed

lemma norm_cdf_35_bounds:
  "6368306511 / 10000000000 \<le> norm_cdf (35 / 100)" "norm_cdf (35 / 100) \<le> 6368306512 / 10000000000"
proof -
  define c :: real where "c = 1 / sqrt (2 * pi)"
  define h :: real where "h = (\<Sum>k. (- 1) ^ k * erf_term (49 / 800) k)"
  have "(35 / 100 :: real)\<^sup>2 / 2 = 49 / 800"
    by (simp add: power2_eq_square)
  then have eq: "norm_cdf (35 / 100) = 1 / 2 + 35 / 100 * c * h"
    by (simp only: norm_cdf_alt [of "35 / 100"] c_def h_def)
  have cb: "39894228040 / 100000000000 \<le> c" "c \<le> 39894228041 / 100000000000"
    using inv_sqrt_2pi_bounds by (simp_all only: c_def)
  have hb: "979953083060 / 1000000000000 \<le> h" "h \<le> 979953083066 / 1000000000000"
    using erf_sum_35_bounds by (simp_all only: h_def)
  have b: "1 / 2 + 35 / 100 * ((39894228040 / 100000000000) * (979953083060 / 1000000000000))
        \<le> 1 / 2 + 35 / 100 * c * h"
    "1 / 2 + 35 / 100 * c * h
        \<le> 1 / 2 + 35 / 100 * ((39894228041 / 100000000000) * (979953083066 / 1000000000000))"
    by (rule scaled_product_bounds [OF cb hb], simp, simp, simp)+
  show "6368306511 / 10000000000 \<le> norm_cdf (35 / 100)"
    unfolding eq using b(1) by simp
  show "norm_cdf (35 / 100) \<le> 6368306512 / 10000000000"
    unfolding eq using b(2) by simp
qed

lemma norm_cdf_15_bounds:
  "5596176923 / 10000000000 \<le> norm_cdf (15 / 100)" "norm_cdf (15 / 100) \<le> 5596176924 / 10000000000"
proof -
  define c :: real where "c = 1 / sqrt (2 * pi)"
  define h :: real where "h = (\<Sum>k. (- 1) ^ k * erf_term (9 / 800) k)"
  have "(15 / 100 :: real)\<^sup>2 / 2 = 9 / 800"
    by (simp add: power2_eq_square)
  then have eq: "norm_cdf (15 / 100) = 1 / 2 + 15 / 100 * c * h"
    by (simp only: norm_cdf_alt [of "15 / 100"] c_def h_def)
  have cb: "39894228040 / 100000000000 \<le> c" "c \<le> 39894228041 / 100000000000"
    using inv_sqrt_2pi_bounds by (simp_all only: c_def)
  have hb: "996262622423 / 1000000000000 \<le> h" "h \<le> 996262622424 / 1000000000000"
    using erf_sum_15_bounds by (simp_all only: h_def)
  have b: "1 / 2 + 15 / 100 * ((39894228040 / 100000000000) * (996262622423 / 1000000000000))
        \<le> 1 / 2 + 15 / 100 * c * h"
    "1 / 2 + 15 / 100 * c * h
        \<le> 1 / 2 + 15 / 100 * ((39894228041 / 100000000000) * (996262622424 / 1000000000000))"
    by (rule scaled_product_bounds [OF cb hb], simp, simp, simp)+
  show "5596176923 / 10000000000 \<le> norm_cdf (15 / 100)"
    unfolding eq using b(1) by simp
  show "norm_cdf (15 / 100) \<le> 5596176924 / 10000000000"
    unfolding eq using b(2) by simp
qed

lemma scenario_d1: "spec_d1 100 100 1 (1 / 20) (1 / 5) = 7 / 20"
  by (simp add: spec_d1_def power2_eq_square)

lemma scenario_d2: "spec_d2 100 100 1 (1 / 20) (1 / 5) = 3 / 20"
  by (simp add: spec_d2_def scenario_d1)

lemma scenario_discounted_bounds:
  "(95122942447 / 100000000000) * (5596176923 / 10000000000)
     \<le> exp (- (1 / 20)) * norm_cdf (15 / 100)"
  "exp (- (1 / 20)) * norm_cdf (15 / 100)
     \<le> (95122942451 / 100000000000) * (5596176924 / 10000000000)"
proof -
  have B0: "0 \<le> norm_cdf (15 / 100)"
    using norm_cdf_bounds(1) [of "15 / 100"] by (rule less_imp_le)
  show "(95122942447 / 100000000000) * (5596176923 / 10000000000)
     \<le> exp (- (1 / 20)) * norm_cdf (15 / 100)"
    by (rule mult_mono [OF exp_minus_20_bounds(1) norm_cdf_15_bounds(1)]) simp_all
  show "exp (- (1 / 20)) * norm_cdf (15 / 100)
     \<le> (95122942451 / 100000000000) * (5596176924 / 10000000000)"
    by (rule mult_mono [OF exp_minus_20_bounds(2) norm_cdf_15_bounds(2) _ B0]) simp
qed

lemma scenario_values:
  "u_black_scholes 100 100 1 (1 / 20) (1 / 5) is_call =
     Inr (if is_call then spec_call 100 100 1 (1 / 20) (1 / 5)
          else spec_put 100 100 1 (1 / 20) (1 / 5))"
  by (rule bs_value) simp_all

lemma scenario_call:
  "price (spec_call 100 100 1 (1 / 20) (1 / 5))
     = 100 * norm_cdf (7 / 20) - 100 * (exp (- (1 / 20)) * norm_cdf (3 / 20))"
  "delta (spec_call 100 100 1 (1 / 20) (1 / 5)) = norm_cdf (7 / 20)"
  by (simp_all add: spec_call_def scenario_d1 scenario_d2 Let_def)

lemma scenario_put:
  "price (spec_put 100 100 1 (1 / 20) (1 / 5))
     = 100 * exp (- (1 / 20)) - 100 * (exp (- (1 / 20)) * norm_cdf (3 / 20))
       - 100 + 100 * norm_cdf (7 / 20)"
  "delta (spec_put 100 100 1 (1 / 20) (1 / 5)) = norm_cdf (7 / 20) - 1"
  by (simp_all add: spec_put_def scenario_d1 scenario_d2 norm_cdf_minus Let_def right_diff_distrib)

section \<open>The call and the put differ\<close>

lemma spec_call_neq_put: "spec_call S K T r sigma \<noteq> spec_put S K T r sigma"
proof
  assume "spec_call S K T r sigma = spec_put S K T r sigma"
  then have "delta (spec_call S K T r sigma) = delta (spec_put S K T r sigma)"
    by simp
  then have "norm_cdf (spec_d1 S K T r sigma) = - norm_cdf (- spec_d1 S K T r sigma)"
    by (simp add: spec_call_def spec_put_def Let_def)
  then show False
    using norm_cdf_bounds(1) [of "spec_d1 S K T r sigma"]
      norm_cdf_bounds(1) [of "- spec_d1 S K T r sigma"]
    by simp
qed

lemma lower_anything_else: "lower ''anything-else'' \<noteq> ''call''"
  by (simp add: lower_def)

section \<open>The claims\<close>

text \<open>
  C5 (put-call parity): for every non-degenerate input the function returns a result for
  the call and for the put, and the call price minus the put price is \<open>S - K * exp (- r * T)\<close>.
\<close>

theorem put_call_parity:
  assumes "0 < S" "0 < K" "0 < T" "0 < sigma"
  shows "\<exists>c p. u_black_scholes S K T r sigma True = Inr c
             \<and> u_black_scholes S K T r sigma False = Inr p
             \<and> price c - price p = S - K * exp (- (r * T))"
  by (simp add: bs_value [OF assms] put_call_parity_spec)

theorem put_call_parity_witness:
  "\<exists>c p. u_black_scholes 100 100 1 (5 / 100) (2 / 10) True = Inr c
       \<and> u_black_scholes 100 100 1 (5 / 100) (2 / 10) False = Inr p
       \<and> price c - price p = 100 - 100 * exp (- (5 / 100))"
  using put_call_parity [of 100 100 1 "2 / 10" "5 / 100"] by simp

text \<open>
  C6: for every non-degenerate input the call delta minus the put delta is \<open>1\<close>.
\<close>

theorem delta_call_minus_put:
  assumes "0 < S" "0 < K" "0 < T" "0 < sigma"
  shows "\<exists>c p. u_black_scholes S K T r sigma True = Inr c
             \<and> u_black_scholes S K T r sigma False = Inr p
             \<and> delta c - delta p = 1"
  by (simp add: bs_value [OF assms] spec_call_def spec_put_def Let_def norm_cdf_minus)

theorem delta_call_minus_put_witness:
  "\<exists>c p. u_black_scholes 100 100 1 (5 / 100) (2 / 10) True = Inr c
       \<and> u_black_scholes 100 100 1 (5 / 100) (2 / 10) False = Inr p
       \<and> delta c - delta p = 1"
  using delta_call_minus_put [of 100 100 1 "2 / 10" "5 / 100"] by simp

text \<open>
  C7: for every \<open>(S, K, T, r, sigma)\<close>, degenerate or not, the call and the put have the
  same gamma and the same vega.
\<close>

theorem gamma_vega_flag_independent:
  "\<exists>c p. u_black_scholes S K T r sigma True = Inr c
       \<and> u_black_scholes S K T r sigma False = Inr p
       \<and> gamma c = gamma p \<and> vega c = vega p"
proof (cases "T \<le> 0 \<or> sigma \<le> 0 \<or> S \<le> 0 \<or> K \<le> 0")
  case True
  then show ?thesis by (simp add: u_black_scholes_def)
next
  case False
  then show ?thesis by (simp add: bs_value not_le spec_call_def spec_put_def Let_def)
qed

text \<open>
  C4: the endpoint passes \<open>is_call = True\<close> exactly when the lowercased type string is
  \<^verbatim>\<open>'call'\<close>, which holds for the sixteen spellings of \<open>call\<close> in upper and lower
  case and for no other string, so the type string is never a reason to fail and
  \<^verbatim>\<open>'CALL'\<close> and \<^verbatim>\<open>'call'\<close> give the same output. On a non-degenerate request the
  output is the six call values when the lowercased type is \<^verbatim>\<open>'call'\<close> and the six
  put values otherwise; the two differ, so the output is the call's if and only if the
  lowercased type is \<^verbatim>\<open>'call'\<close>.
\<close>

theorem type_dispatch:
  "black_scholes req =
     u_black_scholes (req_S req) (req_K req) (req_T req) (req_r req) (req_sigma req)
       (lower (req_type req) = ''call'')
   \<and> (lower (req_type req) = ''call'') =
       (\<exists>a b c d. req_type req = [a, b, c, d] \<and> a \<in> {CHR ''c'', CHR ''C''}
          \<and> b \<in> {CHR ''a'', CHR ''A''} \<and> c \<in> {CHR ''l'', CHR ''L''} \<and> d \<in> {CHR ''l'', CHR ''L''})
   \<and> black_scholes (req\<lparr>req_type := ''CALL''\<rparr>) = black_scholes (req\<lparr>req_type := ''call''\<rparr>)
   \<and> (0 < req_S req \<and> 0 < req_K req \<and> 0 < req_T req \<and> 0 < req_sigma req \<longrightarrow>
        black_scholes req =
          Inr (if lower (req_type req) = ''call''
               then spec_call (req_S req) (req_K req) (req_T req) (req_r req) (req_sigma req)
               else spec_put (req_S req) (req_K req) (req_T req) (req_r req) (req_sigma req))
        \<and> (black_scholes req =
              Inr (spec_call (req_S req) (req_K req) (req_T req) (req_r req) (req_sigma req)))
            = (lower (req_type req) = ''call'')
        \<and> (black_scholes req =
              Inr (spec_put (req_S req) (req_K req) (req_T req) (req_r req) (req_sigma req)))
            = (lower (req_type req) \<noteq> ''call''))"
proof -
  let ?S = "req_S req" and ?K = "req_K req" and ?T = "req_T req"
  let ?r = "req_r req" and ?g = "req_sigma req"
  have a: "black_scholes req = u_black_scholes ?S ?K ?T ?r ?g (lower (req_type req) = ''call'')"
    by (simp add: black_scholes_def)
  have b: "black_scholes (req\<lparr>req_type := ''CALL''\<rparr>) = black_scholes (req\<lparr>req_type := ''call''\<rparr>)"
    by (simp add: black_scholes_def lower_CALL lower_call)
  have c: "black_scholes req =
      Inr (if lower (req_type req) = ''call'' then spec_call ?S ?K ?T ?r ?g
           else spec_put ?S ?K ?T ?r ?g)"
    if "0 < ?S" "0 < ?K" "0 < ?T" "0 < ?g"
    using that by (simp add: a bs_value)
  have d: "(black_scholes req = Inr (spec_call ?S ?K ?T ?r ?g)) = (lower (req_type req) = ''call'')"
    "(black_scholes req = Inr (spec_put ?S ?K ?T ?r ?g)) = (lower (req_type req) \<noteq> ''call'')"
    if "0 < ?S" "0 < ?K" "0 < ?T" "0 < ?g"
    using c [OF that] spec_call_neq_put [of ?S ?K ?T ?r ?g] by auto
  show ?thesis
    using a b c d lower_eq_call_iff [of "req_type req"] by blast
qed

theorem type_dispatch_witness:
  "black_scholes \<lparr>req_S = 100, req_K = 100, req_T = 1, req_r = 5 / 100, req_sigma = 2 / 10,
       req_type = ''CALL''\<rparr> = Inr (spec_call 100 100 1 (5 / 100) (2 / 10))
   \<and> black_scholes \<lparr>req_S = 100, req_K = 100, req_T = 1, req_r = 5 / 100, req_sigma = 2 / 10,
       req_type = ''anything-else''\<rparr> = Inr (spec_put 100 100 1 (5 / 100) (2 / 10))
   \<and> spec_call 100 100 1 (5 / 100) (2 / 10) \<noteq> spec_put 100 100 1 (5 / 100) (2 / 10)"
proof -
  let ?q1 = "\<lparr>req_S = 100, req_K = 100, req_T = 1, req_r = 5 / 100, req_sigma = 2 / 10,
       req_type = ''CALL''\<rparr>"
  let ?q2 = "\<lparr>req_S = 100, req_K = 100, req_T = 1, req_r = 5 / 100, req_sigma = 2 / 10,
       req_type = ''anything-else''\<rparr>"
  have h1: "0 < req_S ?q1 \<and> 0 < req_K ?q1 \<and> 0 < req_T ?q1 \<and> 0 < req_sigma ?q1"
    by simp
  have h2: "0 < req_S ?q2 \<and> 0 < req_K ?q2 \<and> 0 < req_T ?q2 \<and> 0 < req_sigma ?q2"
    by simp
  have t1: "lower (req_type ?q1) = ''call''"
    by (simp add: lower_CALL)
  have t2: "lower (req_type ?q2) \<noteq> ''call''"
    by (simp add: lower_anything_else)
  from type_dispatch [of ?q1] h1 t1
  have "black_scholes ?q1 = Inr (spec_call (req_S ?q1) (req_K ?q1) (req_T ?q1) (req_r ?q1) (req_sigma ?q1))"
    by blast
  moreover from type_dispatch [of ?q2] h2 t2
  have "black_scholes ?q2 = Inr (spec_put (req_S ?q2) (req_K ?q2) (req_T ?q2) (req_r ?q2) (req_sigma ?q2))"
    by blast
  ultimately show ?thesis
    using spec_call_neq_put [of 100 100 1 "5 / 100" "2 / 10"] by simp
qed

text \<open>
  C10: for every non-degenerate input the call delta lies strictly between \<open>0\<close> and
  \<open>1\<close>, the put delta strictly between \<open>-1\<close> and \<open>0\<close>, and gamma and vega are
  strictly positive, for the call and for the put.
\<close>

theorem strict_sign_bounds:
  assumes "0 < S" "0 < K" "0 < T" "0 < sigma"
  shows "\<exists>c p. u_black_scholes S K T r sigma True = Inr c
             \<and> u_black_scholes S K T r sigma False = Inr p
             \<and> 0 < delta c \<and> delta c < 1 \<and> - 1 < delta p \<and> delta p < 0
             \<and> 0 < gamma c \<and> 0 < vega c \<and> 0 < gamma p \<and> 0 < vega p"
proof -
  let ?d1 = "spec_d1 S K T r sigma"
  have g: "0 < norm_pdf ?d1 / (S * sigma * sqrt T)"
    using assms norm_pdf_pos [of ?d1] by simp
  have v: "0 < S * norm_pdf ?d1 * sqrt T / 100"
    using assms norm_pdf_pos [of ?d1] by simp
  show ?thesis
    using g v norm_cdf_bounds [of ?d1] norm_cdf_bounds [of "- ?d1"]
    by (simp add: bs_value [OF assms] spec_call_def spec_put_def Let_def)
qed

theorem strict_sign_bounds_witness:
  "\<exists>c p. u_black_scholes 100 100 1 (5 / 100) (2 / 10) True = Inr c
       \<and> u_black_scholes 100 100 1 (5 / 100) (2 / 10) False = Inr p
       \<and> 0 < delta c \<and> delta c < 1 \<and> - 1 < delta p \<and> delta p < 0
       \<and> 0 < gamma c \<and> 0 < vega c \<and> 0 < gamma p \<and> 0 < vega p"
  using strict_sign_bounds [of 100 100 1 "2 / 10" "5 / 100"] by simp

text \<open>
  C9: for \<open>S = 100\<close>, \<open>K = 100\<close>, \<open>T = 1\<close>, \<open>r = 0.05\<close>, \<open>sigma = 0.2\<close> the call has
  price \<open>10.4506\<close> and delta \<open>0.6368\<close>, the put has price \<open>5.5735\<close> and delta
  \<open>-0.3632\<close>, each to within half a unit of the fourth decimal place.
\<close>

theorem concrete_scenario:
  "\<exists>c p. u_black_scholes 100 100 1 (5 / 100) (2 / 10) True = Inr c
       \<and> u_black_scholes 100 100 1 (5 / 100) (2 / 10) False = Inr p
       \<and> \<bar>price c - 104506 / 10000\<bar> < 5 / 100000
       \<and> \<bar>delta c - 6368 / 10000\<bar> < 5 / 100000
       \<and> \<bar>price p - 55735 / 10000\<bar> < 5 / 100000
       \<and> \<bar>delta p - (- 3632 / 10000)\<bar> < 5 / 100000"
proof -
  define A where "A = norm_cdf (7 / 20)"
  define EB where "EB = exp (- (1 / 20) :: real) * norm_cdf (3 / 20)"
  define E where "E = exp (- (1 / 20) :: real)"
  have A: "6368306511 / 10000000000 \<le> A" "A \<le> 6368306512 / 10000000000"
    using norm_cdf_35_bounds by (simp_all add: A_def)
  have E: "95122942447 / 100000000000 \<le> E" "E \<le> 95122942451 / 100000000000"
    using exp_minus_20_bounds by (simp_all add: E_def)
  have EB: "(95122942447 / 100000000000) * (5596176923 / 10000000000) \<le> EB"
    "EB \<le> (95122942451 / 100000000000) * (5596176924 / 10000000000)"
    using scenario_discounted_bounds by (simp_all add: EB_def)
  have c: "\<bar>(100 * A - 100 * EB) - 104506 / 10000\<bar> < 5 / 100000"
    using A EB by simp
  have d: "\<bar>A - 6368 / 10000\<bar> < 5 / 100000"
    using A by simp
  have p: "\<bar>(100 * E - 100 * EB - 100 + 100 * A) - 55735 / 10000\<bar> < 5 / 100000"
    using A E EB by simp
  have q: "\<bar>(A - 1) - (- 3632 / 10000)\<bar> < 5 / 100000"
    using A by simp
  have "u_black_scholes 100 100 1 (5 / 100) (2 / 10) True = Inr (spec_call 100 100 1 (1 / 20) (1 / 5))"
    "u_black_scholes 100 100 1 (5 / 100) (2 / 10) False = Inr (spec_put 100 100 1 (1 / 20) (1 / 5))"
    using scenario_values [of True] scenario_values [of False] by simp_all
  moreover have "\<bar>price (spec_call 100 100 1 (1 / 20) (1 / 5)) - 104506 / 10000\<bar> < 5 / 100000"
    using c by (simp only: scenario_call A_def EB_def)
  moreover have "\<bar>delta (spec_call 100 100 1 (1 / 20) (1 / 5)) - 6368 / 10000\<bar> < 5 / 100000"
    using d by (simp only: scenario_call A_def)
  moreover have "\<bar>price (spec_put 100 100 1 (1 / 20) (1 / 5)) - 55735 / 10000\<bar> < 5 / 100000"
    using p by (simp only: scenario_put A_def EB_def E_def)
  moreover have "\<bar>delta (spec_put 100 100 1 (1 / 20) (1 / 5)) - (- 3632 / 10000)\<bar> < 5 / 100000"
    using q by (simp only: scenario_put A_def)
  ultimately show ?thesis
    by blast
qed

end
